theory Spec2Isabelle
  imports Main "HOL-Library.Sublist"
begin

section \<open>The script \<open>download_music.py\<close>\<close>

text \<open>
  The script reads a CSV export of tracks and, for every row, asks yt-dlp to search for
  the track and to download it as mp3. Everything the script does is modelled here:
  the lookup of \<open>sys.argv[1]\<close>, the options dict, \<open>open\<close>, \<open>csv.DictReader\<close>, the
  two subscripts of the row, the progress message and the call of \<open>ydl.download\<close>.

  The world outside the script is a parameter of the model:
  \<^item> the file system is a map from paths to the records that \<open>csv.reader\<close> yields for the
    file at that path (a record is the list of the fields of one row; an empty line is
    the record \<open>[]\<close>); a path outside the domain of the map names no existing file,
    and \<open>errno\<close> gives the error number with which the operating system fails
    \<open>open\<close> for such a path;
  \<^item> the home directory that \<open>os.path.expanduser\<close> finds for the current user is a
    \<open>string option\<close> (\<open>None\<close>: there is none);
  \<^item> \<open>ydl.download\<close> is a function of the state \<open>'w\<close> of the outside world and of the
    list of URLs: it returns the new state and says whether the call raised.
\<close>

subsection \<open>Exceptions\<close>

text \<open>
  An \<open>OSError\<close> carries the error number of the operating system and the file name.
  Python chooses the class of the exception from the error number alone:
  \<open>FileNotFoundError\<close> for \<open>ENOENT\<close>, \<open>NotADirectoryError\<close> for \<open>ENOTDIR\<close>,
  \<open>PermissionError\<close> for \<open>EACCES\<close>, and plain \<open>OSError\<close> for a number without a
  class of its own, such as \<open>ENAMETOOLONG\<close>. The numbers are those of Linux.
\<close>

datatype error =
    IndexError
  | OSError nat string
  | KeyError string
  | DownloadError string

definition ENOENT :: nat where
  "ENOENT = 2"

definition EACCES :: nat where
  "EACCES = 13"

definition ENOTDIR :: nat where
  "ENOTDIR = 20"

definition ENAMETOOLONG :: nat where
  "ENAMETOOLONG = 36"

definition FileNotFoundError :: "string \<Rightarrow> error" where
  "FileNotFoundError filename = OSError ENOENT filename"

definition NotADirectoryError :: "string \<Rightarrow> error" where
  "NotADirectoryError filename = OSError ENOTDIR filename"

definition PermissionError :: "string \<Rightarrow> error" where
  "PermissionError filename = OSError EACCES filename"

subsection \<open>The options of the downloader (lines 8 to 17)\<close>

text \<open>
  The values of the options dict are a string or a list of dicts from strings to
  strings. A dict literal is kept as the list of its items, in the order of the source.
\<close>

datatype optval = OStr string | ODicts "(string \<times> string) list list"

type_synonym options = "(string \<times> optval) list"

text \<open>\<open>str.rstrip('/')\<close>, which \<open>expanduser\<close> applies to the home directory.\<close>

definition rstrip_sep :: "string \<Rightarrow> string" where
  "rstrip_sep s = rev (dropWhile (\<lambda>c. c = CHR ''/'') (rev s))"

text \<open>
  \<open>output_dir = os.path.expanduser("~/Music")\<close>. The path starts with a tilde that is
  followed by the separator at once, so \<open>posixpath.expanduser\<close> replaces the tilde by
  the home directory of the current user, stripped of trailing separators, and returns
  the path unchanged when the user has no home directory.
\<close>

definition output_dir :: "string option \<Rightarrow> string" where
  "output_dir userhome =
     (case userhome of
        None \<Rightarrow> ''~/Music''
      | Some home \<Rightarrow> rstrip_sep home @ ''/Music'')"

definition ydl_opts :: "string option \<Rightarrow> options" where
  "ydl_opts userhome =
     [(''format'', OStr ''bestaudio/best''),
      (''postprocessors'',
         ODicts [[(''key'', ''FFmpegExtractAudio''), (''preferredcodec'', ''mp3'')]]),
      (''outtmpl'', OStr (output_dir userhome @ ''/%(title)s.%(ext)s''))]"

subsection \<open>\<open>csv.DictReader\<close> (line 21)\<close>

text \<open>
  A row of the \<open>DictReader\<close> is a dict. Under a string key it holds a string or
  \<open>None\<close> (the \<open>restval\<close> of a field that the record does not reach); under the key
  \<open>None\<close> (the \<open>restkey\<close>) it holds the list of the fields beyond the header, when
  there are any.
\<close>

record row =
  cells :: "string \<rightharpoonup> string option"
  restkey :: "string list option"

text \<open>\<open>dict(zip(self.fieldnames, row))\<close>: a later duplicate of a key wins.\<close>

definition dict_zip :: "string list \<Rightarrow> string list \<Rightarrow> (string \<rightharpoonup> string option)" where
  "dict_zip fieldnames r = fold (\<lambda>(k, v) d. d(k \<mapsto> Some v)) (zip fieldnames r) Map.empty"

text \<open>
  The body of \<open>DictReader.__next__\<close> after a non-empty record has been read:
  \<^verbatim>\<open>
        d = dict(zip(self.fieldnames, row))
        lf = len(self.fieldnames)
        lr = len(row)
        if lf < lr:
            d[self.restkey] = row[lf:]
        elif lf > lr:
            for key in self.fieldnames[lr:]:
                d[key] = self.restval
        return d
  \<close>
\<close>

definition make_row :: "string list \<Rightarrow> string list \<Rightarrow> row" where
  "make_row fieldnames r =
     (let d = dict_zip fieldnames r; lf = length fieldnames; lr = length r in
      if lf < lr then \<lparr>cells = d, restkey = Some (drop lf r)\<rparr>
      else if lf > lr then
        \<lparr>cells = fold (\<lambda>key d. d(key \<mapsto> None)) (drop lr fieldnames) d, restkey = None\<rparr>
      else \<lparr>cells = d, restkey = None\<rparr>)"

text \<open>
  The rows that iterating over \<open>csv.DictReader(f)\<close> yields: the first record of the
  file is the header (\<open>fieldnames\<close>), a later record that is empty is skipped
  (\<open>while row == []: row = next(self.reader)\<close>), every other record becomes a dict.
  A file with no record at all yields nothing.
\<close>

fun DictReader :: "string list list \<Rightarrow> row list" where
  "DictReader [] = []"
| "DictReader (fieldnames # records) =
     map (make_row fieldnames) (filter (\<lambda>r. r \<noteq> []) records)"

text \<open>\<open>row[key]\<close>: a key that the dict does not have raises \<open>KeyError\<close>.\<close>

definition getitem :: "row \<Rightarrow> string \<Rightarrow> error + string option" where
  "getitem d key = (case cells d key of None \<Rightarrow> Inl (KeyError key) | Some v \<Rightarrow> Inr v)"

text \<open>How an f-string formats a field: a string as it is, \<open>None\<close> as \<open>None\<close>.\<close>

fun str :: "string option \<Rightarrow> string" where
  "str None = ''None''"
| "str (Some s) = s"

subsection \<open>Runs\<close>

text \<open>
  What a run does, in the order in which it does it: the downloader is constructed with
  its options, a line is printed, \<open>ydl.download\<close> is called with a list of URLs (the
  second argument of \<open>Download\<close> is \<open>None\<close> when the call returned and the message of
  the exception when it raised).
\<close>

datatype event =
    YoutubeDL options
  | Print string
  | Download "string list" "string option"

text \<open>
  A piece of the program, once run: the events it caused, the exception that ended it
  (\<open>None\<close> when it ran to its end), and the outside world it left.
\<close>

record 'w run =
  events :: "event list"
  raised :: "error option"
  world :: 'w

type_synonym 'w downloader = "'w \<Rightarrow> string list \<Rightarrow> string option \<times> 'w"

text \<open>Sequencing: what follows a piece runs only when the piece raised nothing.\<close>

definition seq :: "'w run \<Rightarrow> ('w \<Rightarrow> 'w run) \<Rightarrow> 'w run" where
  "seq a k =
     (case raised a of
        Some e \<Rightarrow> a
      | None \<Rightarrow> (let b = k (world a) in b\<lparr>events := events a @ events b\<rparr>))"

text \<open>The two f-strings of lines 25 and 26.\<close>

definition progress :: "string option \<Rightarrow> string option \<Rightarrow> string" where
  "progress artists name = ''Downloading: '' @ str artists @ '' - '' @ str name"

definition ytsearch :: "string option \<Rightarrow> string option \<Rightarrow> string" where
  "ytsearch artists name = ''ytsearch:'' @ str artists @ '' '' @ str name"

text \<open>\<open>ydl.download(urls)\<close>: an exception of the library is not caught.\<close>

definition download :: "'w downloader \<Rightarrow> string list \<Rightarrow> 'w \<Rightarrow> 'w run" where
  "download dl urls w =
     (case dl w urls of
        (None, w') \<Rightarrow> \<lparr>events = [Download urls None], raised = None, world = w'\<rparr>
      | (Some msg, w') \<Rightarrow>
          \<lparr>events = [Download urls (Some msg)], raised = Some (DownloadError msg), world = w'\<rparr>)"

text \<open>The body of the loop (lines 23 to 26).\<close>

definition body :: "'w downloader \<Rightarrow> row \<Rightarrow> 'w \<Rightarrow> 'w run" where
  "body dl r w =
     (case getitem r ''Track Name'' of
        Inl e \<Rightarrow> \<lparr>events = [], raised = Some e, world = w\<rparr>
      | Inr name \<Rightarrow>
          (case getitem r ''Artist Name(s)'' of
             Inl e \<Rightarrow> \<lparr>events = [], raised = Some e, world = w\<rparr>
           | Inr artists \<Rightarrow>
               seq \<lparr>events = [Print (progress artists name)], raised = None, world = w\<rparr>
                 (download dl [ytsearch artists name])))"

text \<open>\<open>for row in reader\<close> (line 22).\<close>

fun loop :: "'w downloader \<Rightarrow> row list \<Rightarrow> 'w \<Rightarrow> 'w run" where
  "loop dl [] w = \<lparr>events = [], raised = None, world = w\<rparr>"
| "loop dl (r # rs) w = seq (body dl r w) (\<lambda>w'. loop dl rs w')"

text \<open>
  The whole script. \<open>sys.argv[1]\<close> raises \<open>IndexError\<close> when the script has no
  argument; the downloader is constructed before the file is opened. For a path that
  names no existing file, \<open>open\<close> raises the \<open>OSError\<close> of the error number that the
  operating system reports for the path (\<open>errno\<close>): \<open>ENOENT\<close> where no entry of that
  name exists, but \<open>ENOTDIR\<close> where a component of the path is a regular file,
  \<open>ENAMETOOLONG\<close> where a name is too long, \<open>EACCES\<close> where a directory on the way
  may not be searched. Leaving the two \<open>with\<close> blocks lets an exception pass.
\<close>

definition download_music ::
  "'w downloader \<Rightarrow> string option \<Rightarrow> (string \<rightharpoonup> string list list) \<Rightarrow> (string \<Rightarrow> nat) \<Rightarrow>
     string list \<Rightarrow> 'w \<Rightarrow> 'w run"
where
  "download_music dl userhome fs errno argv w =
     (if length argv < 2 then \<lparr>events = [], raised = Some IndexError, world = w\<rparr>
      else
        let input_file = argv ! 1 in
        seq \<lparr>events = [YoutubeDL (ydl_opts userhome)], raised = None, world = w\<rparr>
          (\<lambda>w. case fs input_file of
                  None \<Rightarrow>
                    \<lparr>events = [], raised = Some (OSError (errno input_file) input_file), world = w\<rparr>
                | Some f \<Rightarrow> loop dl (DictReader f) w))"

text \<open>The download invocations of a run, in order: the argument of each call.\<close>

fun downloads :: "event list \<Rightarrow> string list list" where
  "downloads [] = []"
| "downloads (Download urls res # es) = urls # downloads es"
| "downloads (e # es) = downloads es"

text \<open>The progress messages of a run, in order.\<close>

fun prints :: "event list \<Rightarrow> string list" where
  "prints [] = []"
| "prints (Print s # es) = s # prints es"
| "prints (e # es) = prints es"

text \<open>The downloaders that a run constructs, in order: the options of each.\<close>

fun constructions :: "event list \<Rightarrow> options list" where
  "constructions [] = []"
| "constructions (YoutubeDL opts # es) = opts # constructions es"
| "constructions (e # es) = constructions es"

subsection \<open>Notions of the specification\<close>

text \<open>
  The value of a row under a key, as the loop body reads it once the subscript has
  succeeded (\<open>None\<close> is Python's \<open>None\<close>; the program never uses the value of a key
  that the row does not have).
\<close>

definition field :: "row \<Rightarrow> string \<Rightarrow> string option" where
  "field d key = (case cells d key of None \<Rightarrow> None | Some v \<Rightarrow> v)"

text \<open>The argument of the download invocation for a row.\<close>

definition request :: "row \<Rightarrow> string list" where
  "request d = [ytsearch (field d ''Artist Name(s)'') (field d ''Track Name'')]"

text \<open>
  A data record supplies both fields when the row made of it has a string under
  \<open>Track Name\<close> and a string under \<open>Artist Name(s)\<close>.
\<close>

definition supplies :: "string list \<Rightarrow> string list \<Rightarrow> bool" where
  "supplies header r =
     ((case cells (make_row header r) ''Track Name'' of Some (Some name) \<Rightarrow> True | _ \<Rightarrow> False) \<and>
      (case cells (make_row header r) ''Artist Name(s)'' of Some (Some artists) \<Rightarrow> True | _ \<Rightarrow> False))"

text \<open>What a row holds in the two columns that the program reads.\<close>

definition key_fields :: "row \<Rightarrow> string option option \<times> string option option" where
  "key_fields d = (cells d ''Track Name'', cells d ''Artist Name(s)'')"

section \<open>Facts about the model\<close>

subsection \<open>The rows of the reader\<close>

lemma dom_dict_zip_aux:
  "dom (fold (\<lambda>(k, v) d. d(k \<mapsto> Some v)) kvs d0) = dom d0 \<union> fst ` set kvs"
  by (induction kvs arbitrary: d0) auto

lemma dom_dict_zip: "dom (dict_zip fieldnames r) = set (take (length r) fieldnames)"
proof -
  have "fst ` set (zip fieldnames r) = set (map fst (zip fieldnames r))" by simp
  also have "\<dots> = set (take (length r) fieldnames)"
    by (simp add: map_fst_zip_take min_def)
  finally show ?thesis by (simp add: dict_zip_def dom_dict_zip_aux)
qed

lemma dom_fill:
  "dom (fold (\<lambda>key d. d(key \<mapsto> None)) ks d0) = dom d0 \<union> set ks"
  by (induction ks arbitrary: d0) auto

lemma dom_make_row: "dom (cells (make_row fieldnames r)) = set fieldnames"
proof -
  have "set (take (length r) fieldnames) \<union> set (drop (length r) fieldnames) = set fieldnames"
    by (metis append_take_drop_id set_append)
  then show ?thesis
    by (auto simp: make_row_def Let_def dom_dict_zip dom_fill)
qed

lemma cells_make_row_None: "cells (make_row fieldnames r) k = None \<longleftrightarrow> k \<notin> set fieldnames"
  by (metis dom_make_row domIff)

lemma fill_not_Some:
  "d0 k \<noteq> Some (Some v) \<Longrightarrow> fold (\<lambda>key d. d(key \<mapsto> None)) ks d0 k \<noteq> Some (Some v)"
  by (induction ks arbitrary: d0) auto

lemma make_row_Nil: "cells (make_row fieldnames []) k \<noteq> Some (Some v)"
  by (simp add: make_row_def dict_zip_def Let_def fill_not_Some)

subsection \<open>Sequencing\<close>

lemma seq_raised [simp]: "raised a = Some e \<Longrightarrow> seq a k = a"
  by (simp add: seq_def)

lemma seq_events: "raised a = None \<Longrightarrow> events (seq a k) = events a @ events (k (world a))"
  by (simp add: seq_def Let_def)

lemma seq_raised_None: "raised a = None \<Longrightarrow> raised (seq a k) = raised (k (world a))"
  by (simp add: seq_def Let_def)

lemma seq_world: "raised a = None \<Longrightarrow> world (seq a k) = world (k (world a))"
  by (simp add: seq_def Let_def)

lemma seq_assoc: "seq (seq a k) l = seq a (\<lambda>w. seq (k w) l)"
  by (cases "raised a"; cases "raised (k (world a))") (simp_all add: seq_def Let_def)

lemma seq_unit: "seq \<lparr>events = [], raised = None, world = w\<rparr> k = k w"
  by (simp add: seq_def Let_def)

lemma loop_append: "loop dl (xs @ ys) w = seq (loop dl xs w) (\<lambda>w'. loop dl ys w')"
proof (induction xs arbitrary: w)
  case Nil
  show ?case by (simp add: seq_unit)
next
  case (Cons a xs)
  have "loop dl (xs @ ys) = (\<lambda>w. seq (loop dl xs w) (\<lambda>w'. loop dl ys w'))"
    using Cons.IH by (intro ext)
  then show ?case by (simp add: seq_assoc)
qed

subsection \<open>The body of the loop\<close>

lemma body_no_track:
  "cells r ''Track Name'' = None \<Longrightarrow> body dl r w = \<lparr>events = [], raised = Some (KeyError ''Track Name''), world = w\<rparr>"
  by (simp add: body_def getitem_def)

lemma body_no_artists:
  "cells r ''Track Name'' = Some name \<Longrightarrow> cells r ''Artist Name(s)'' = None \<Longrightarrow>
   body dl r w = \<lparr>events = [], raised = Some (KeyError ''Artist Name(s)''), world = w\<rparr>"
  by (simp add: body_def getitem_def)

lemma body_both:
  assumes "cells r ''Track Name'' = Some name" "cells r ''Artist Name(s)'' = Some artists"
  shows "body dl r w =
    \<lparr>events = [Print (progress artists name),
                Download [ytsearch artists name] (fst (dl w [ytsearch artists name]))],
     raised = map_option DownloadError (fst (dl w [ytsearch artists name])),
     world = snd (dl w [ytsearch artists name])\<rparr>"
  using assms
  by (cases "dl w [ytsearch artists name]"; cases "fst (dl w [ytsearch artists name])")
     (simp_all add: body_def getitem_def seq_def download_def Let_def)

lemma request_both:
  "cells r ''Track Name'' = Some name \<Longrightarrow> cells r ''Artist Name(s)'' = Some artists \<Longrightarrow> request r = [ytsearch artists name]"
  by (simp add: request_def field_def)


text \<open>The three ways in which the body ends.\<close>

lemma body_cases:
  obtains
    (key) k where "body dl r w = \<lparr>events = [], raised = Some (KeyError k), world = w\<rparr>"
      "cells r ''Track Name'' = None \<or> cells r ''Artist Name(s)'' = None"
  | (failed) p m w' where
      "body dl r w = \<lparr>events = [Print p, Download (request r) (Some m)],
         raised = Some (DownloadError m), world = w'\<rparr>"
      "cells r ''Track Name'' \<noteq> None" "cells r ''Artist Name(s)'' \<noteq> None"
  | (returned) p w' where
      "body dl r w = \<lparr>events = [Print p, Download (request r) None], raised = None, world = w'\<rparr>"
      "cells r ''Track Name'' \<noteq> None" "cells r ''Artist Name(s)'' \<noteq> None"
proof (cases "cells r ''Track Name''")
  case None
  show ?thesis
    by (rule key [OF body_no_track [OF None]]) (simp add: None)
next
  case (Some name)
  note tn = this
  show ?thesis
  proof (cases "cells r ''Artist Name(s)''")
    case None
    show ?thesis
      by (rule key [OF body_no_artists [OF tn None]]) (simp add: None)
  next
    case (Some artists)
    note an = this
    note b = body_both [OF tn an, of dl w] and rq = request_both [OF tn an]
    show ?thesis
    proof (cases "fst (dl w [ytsearch artists name])")
      case None
      have "body dl r w = \<lparr>events = [Print (progress artists name), Download (request r) None],
          raised = None, world = snd (dl w [ytsearch artists name])\<rparr>"
        unfolding b rq None by simp
      then show ?thesis
        by (rule returned) (simp_all add: tn an)
    next
      case (Some m)
      have "body dl r w = \<lparr>events = [Print (progress artists name), Download (request r) (Some m)],
          raised = Some (DownloadError m), world = snd (dl w [ytsearch artists name])\<rparr>"
        unfolding b rq Some by simp
      then show ?thesis
        by (rule failed) (simp_all add: tn an)
    qed
  qed
qed


subsection \<open>The loop\<close>

declare loop.simps(2) [simp del]

lemma loop_Cons_raised: "raised (body dl r w) = Some e \<Longrightarrow> loop dl (r # rs) w = body dl r w"
  by (simp add: loop.simps(2))

lemma loop_Cons_returned:
  assumes "body dl r w = \<lparr>events = es, raised = None, world = w'\<rparr>"
  shows "events (loop dl (r # rs) w) = es @ events (loop dl rs w')"
    and "raised (loop dl (r # rs) w) = raised (loop dl rs w')"
    and "world (loop dl (r # rs) w) = world (loop dl rs w')"
  using assms by (simp_all add: loop.simps(2) seq_def Let_def)

lemma loop_downloads:
  "\<exists>n\<le>length rows. downloads (events (loop dl rows w)) = map request (take n rows) \<and>
     (raised (loop dl rows w) = None \<longrightarrow> n = length rows)"
proof (induction rows arbitrary: w)
  case Nil
  show ?case by simp
next
  case (Cons r rs)
  show ?case
  proof (cases rule: body_cases [of dl r w])
    case (key k)
    have "loop dl (r # rs) w = body dl r w"
      by (rule loop_Cons_raised [of _ _ _ "KeyError k"]) (simp add: key(1))
    then show ?thesis
      by (intro exI [of _ 0]) (simp add: key(1))
  next
    case (failed p m w')
    have "loop dl (r # rs) w = body dl r w"
      by (rule loop_Cons_raised [of _ _ _ "DownloadError m"]) (simp add: failed(1))
    then show ?thesis
      by (intro exI [of _ 1]) (simp add: failed(1))
  next
    case (returned p w')
    obtain n where n: "n \<le> length rs"
        "downloads (events (loop dl rs w')) = map request (take n rs)"
        "raised (loop dl rs w') = None \<longrightarrow> n = length rs"
      using Cons.IH [of w'] by (elim exE conjE)
    note step = loop_Cons_returned [OF returned(1), of rs]
    show ?thesis
    proof (intro exI [of _ "Suc n"] conjI impI)
      show "Suc n \<le> length (r # rs)" using n(1) by simp
      show "downloads (events (loop dl (r # rs) w)) = map request (take (Suc n) (r # rs))"
        by (simp add: step(1) n(2))
      show "Suc n = length (r # rs)" if "raised (loop dl (r # rs) w) = None"
        using that n(3) by (simp add: step(2))
    qed
  qed
qed

lemma loop_failed_last:
  "events (loop dl rows w) = pre @ Download u (Some m) # post \<Longrightarrow>
   post = [] \<and> raised (loop dl rows w) = Some (DownloadError m)"
proof (induction rows arbitrary: w pre)
  case Nil
  then show ?case by simp
next
  case (Cons r rs)
  show ?case
  proof (cases rule: body_cases [of dl r w])
    case (key k)
    have "loop dl (r # rs) w = body dl r w"
      by (rule loop_Cons_raised [of _ _ _ "KeyError k"]) (simp add: key(1))
    with Cons.prems key(1) show ?thesis by simp
  next
    case (failed p m' w')
    have eq: "loop dl (r # rs) w = body dl r w"
      by (rule loop_Cons_raised [of _ _ _ "DownloadError m'"]) (simp add: failed(1))
    have "[Print p, Download (request r) (Some m')] = pre @ Download u (Some m) # post"
      using Cons.prems by (simp add: eq failed(1))
    then have "post = [] \<and> m' = m"
      by (cases pre; cases "tl pre") auto
    then show ?thesis by (simp add: eq failed(1))
  next
    case (returned p w')
    note step = loop_Cons_returned [OF returned(1), of rs]
    have "Print p # Download (request r) None # events (loop dl rs w') =
        pre @ Download u (Some m) # post"
      using Cons.prems by (simp add: step)
    then obtain pre' where "events (loop dl rs w') = pre' @ Download u (Some m) # post"
      by (cases pre; cases "tl pre") auto
    from Cons.IH [OF this] show ?thesis by (simp add: step)
  qed
qed

lemma loop_constructions: "constructions (events (loop dl rows w)) = []"
proof (induction rows arbitrary: w)
  case Nil
  show ?case by simp
next
  case (Cons r rs)
  show ?case
  proof (cases rule: body_cases [of dl r w])
    case (key k)
    have "loop dl (r # rs) w = body dl r w"
      by (rule loop_Cons_raised [of _ _ _ "KeyError k"]) (simp add: key(1))
    then show ?thesis by (simp add: key(1))
  next
    case (failed p m w')
    have "loop dl (r # rs) w = body dl r w"
      by (rule loop_Cons_raised [of _ _ _ "DownloadError m"]) (simp add: failed(1))
    then show ?thesis by (simp add: failed(1))
  next
    case (returned p w')
    show ?thesis by (simp add: loop_Cons_returned [OF returned(1)] Cons.IH)
  qed
qed

lemma loop_KeyError_keys:
  assumes "\<forall>r\<in>set rows. cells r ''Track Name'' \<noteq> None \<and> cells r ''Artist Name(s)'' \<noteq> None"
  shows "raised (loop dl rows w) \<noteq> Some (KeyError k)"
  using assms
proof (induction rows arbitrary: w)
  case Nil
  show ?case by simp
next
  case (Cons r rs)
  show ?case
  proof (cases rule: body_cases [of dl r w])
    case (key k')
    with Cons.prems show ?thesis by auto
  next
    case (failed p m w')
    have "loop dl (r # rs) w = body dl r w"
      by (rule loop_Cons_raised [of _ _ _ "DownloadError m"]) (simp add: failed(1))
    then show ?thesis by (simp add: failed(1))
  next
    case (returned p w')
    from Cons.prems have "\<forall>r\<in>set rs. cells r ''Track Name'' \<noteq> None \<and> cells r ''Artist Name(s)'' \<noteq> None" by simp
    from Cons.IH [OF this] show ?thesis by (simp add: loop_Cons_returned [OF returned(1)])
  qed
qed

lemma loop_all_returned:
  assumes "\<forall>r\<in>set rows. cells r ''Track Name'' \<noteq> None \<and> cells r ''Artist Name(s)'' \<noteq> None"
    and "\<forall>w urls. fst (dl w urls) = None"
  shows "raised (loop dl rows w) = None"
  using assms(1)
proof (induction rows arbitrary: w)
  case Nil
  show ?case by simp
next
  case (Cons r rs)
  from Cons.prems obtain name artists where c: "cells r ''Track Name'' = Some name" "cells r ''Artist Name(s)'' = Some artists"
    by auto
  have "body dl r w = \<lparr>events = [Print (progress artists name), Download [ytsearch artists name] None],
      raised = None, world = snd (dl w [ytsearch artists name])\<rparr>"
    by (simp add: body_both [OF c] assms(2))
  note step = loop_Cons_returned [OF this, of rs]
  from Cons.prems have "\<forall>r\<in>set rs. cells r ''Track Name'' \<noteq> None \<and> cells r ''Artist Name(s)'' \<noteq> None" by simp
  from Cons.IH [OF this] show ?case by (simp add: step)
qed

lemma body_key_fields:
  assumes "key_fields r = key_fields r'"
  shows "body dl r w = body dl r' w"
proof -
  have g: "getitem r ''Track Name'' = getitem r' ''Track Name''" "getitem r ''Artist Name(s)'' = getitem r' ''Artist Name(s)''"
    using assms by (simp_all add: key_fields_def getitem_def)
  show ?thesis unfolding body_def g by (rule refl)
qed

lemma loop_key_fields:
  "map key_fields rows = map key_fields rows' \<Longrightarrow> loop dl rows w = loop dl rows' w"
proof (induction rows arbitrary: rows' w)
  case Nil
  then show ?case by simp
next
  case (Cons r rs)
  then obtain r' rs' where rows': "rows' = r' # rs'" "key_fields r = key_fields r'"
      "map key_fields rs = map key_fields rs'"
    by (cases rows') auto
  have "loop dl rs = loop dl rs'"
    using Cons.IH [OF rows'(3)] by (intro ext)
  then show ?case
    by (simp add: rows'(1) loop.simps(2) body_key_fields [OF rows'(2)])
qed


subsection \<open>The whole script\<close>

lemma DictReader_append:
  "DictReader (header # before @ after) = DictReader (header # before) @ DictReader (header # after)"
  by simp

lemma download_music_missing:
  assumes "fs input = None"
  shows "download_music dl userhome fs errno (prog # input # args) w =
    \<lparr>events = [YoutubeDL (ydl_opts userhome)], raised = Some (OSError (errno input) input), world = w\<rparr>"
  using assms by (simp add: download_music_def seq_def Let_def)

lemma download_music_file:
  assumes "fs input = Some content"
  shows "events (download_music dl userhome fs errno (prog # input # args) w) =
      YoutubeDL (ydl_opts userhome) # events (loop dl (DictReader content) w)"
    and "raised (download_music dl userhome fs errno (prog # input # args) w) =
      raised (loop dl (DictReader content) w)"
    and "world (download_music dl userhome fs errno (prog # input # args) w) =
      world (loop dl (DictReader content) w)"
  using assms by (simp_all add: download_music_def seq_def Let_def)

lemma rows_have_keys:
  assumes "''Track Name'' \<in> set header" "''Artist Name(s)'' \<in> set header"
  shows "\<forall>r\<in>set (DictReader (header # records)). cells r ''Track Name'' \<noteq> None \<and> cells r ''Artist Name(s)'' \<noteq> None"
proof
  fix r assume "r \<in> set (DictReader (header # records))"
  then obtain rec where "r = make_row header rec" by auto
  then show "cells r ''Track Name'' \<noteq> None \<and> cells r ''Artist Name(s)'' \<noteq> None"
    using assms by (simp only: cells_make_row_None) simp
qed

lemma loop_first_lacks:
  assumes "cells r ''Track Name'' = None \<or> cells r ''Artist Name(s)'' = None"
  shows "loop dl (r # rs) w =
    \<lparr>events = [], raised = Some (KeyError (if cells r ''Track Name'' = None then ''Track Name'' else ''Artist Name(s)'')), world = w\<rparr>"
proof (cases "cells r ''Track Name''")
  case None
  have "loop dl (r # rs) w = body dl r w"
    by (rule loop_Cons_raised [of _ _ _ "KeyError ''Track Name''"]) (simp add: body_no_track [OF None])
  then show ?thesis by (simp add: body_no_track [OF None] None)
next
  case (Some name)
  with assms have an: "cells r ''Artist Name(s)'' = None" by simp
  have "loop dl (r # rs) w = body dl r w"
    by (rule loop_Cons_raised [of _ _ _ "KeyError ''Artist Name(s)''"]) (simp add: body_no_artists [OF Some an])
  then show ?thesis by (simp add: body_no_artists [OF Some an] Some)
qed

lemma DictReader_nonblank:
  assumes "\<exists>r\<in>set records. r \<noteq> []"
  shows "\<exists>r rs. DictReader (header # records) = make_row header r # rs"
proof -
  from assms have "filter (\<lambda>r. r \<noteq> []) records \<noteq> []"
    by (simp add: filter_empty_conv)
  then obtain r rs where "filter (\<lambda>r. r \<noteq> []) records = r # rs"
    by (cases "filter (\<lambda>r. r \<noteq> []) records") auto
  then show ?thesis
    by (intro exI [of _ r] exI [of _ "map (make_row header) rs"]) simp
qed

lemma DictReader_blank:
  assumes "\<not> (\<exists>r\<in>set records. r \<noteq> [])"
  shows "DictReader (header # records) = []"
  using assms by (simp add: filter_empty_conv)

lemmas run_simps =
  download_music_def seq_def body_def getitem_def make_row_def dict_zip_def download_def
  progress_def ytsearch_def Let_def loop.simps request_def field_def supplies_def
  key_fields_def output_dir_def ydl_opts_def rstrip_sep_def
  ENOENT_def EACCES_def ENOTDIR_def ENAMETOOLONG_def
  FileNotFoundError_def NotADirectoryError_def PermissionError_def

lemma supplies_nonblank: "supplies header r \<Longrightarrow> r \<noteq> []"
proof
  assume s: "supplies header r" and "r = []"
  then have "cells (make_row header r) ''Track Name'' \<noteq> Some (Some v)" for v
    by (simp add: make_row_Nil)
  with s show False
    by (auto simp: supplies_def split: option.splits)
qed

lemma run_first_lacks:
  assumes "fs input = Some (header # records)"
    and "''Track Name'' \<notin> set header \<or> ''Artist Name(s)'' \<notin> set header"
    and "\<exists>r\<in>set records. r \<noteq> []"
  shows "download_music dl userhome fs errno (prog # input # args) w =
    \<lparr>events = [YoutubeDL (ydl_opts userhome)],
     raised = Some (KeyError (if ''Track Name'' \<notin> set header then ''Track Name'' else ''Artist Name(s)'')), world = w\<rparr>"
proof -
  obtain r rs where rows: "DictReader (header # records) = make_row header r # rs"
    using DictReader_nonblank [OF assms(3)] by blast
  have lacks: "cells (make_row header r) ''Track Name'' = None \<or> cells (make_row header r) ''Artist Name(s)'' = None"
    using assms(2) by (simp only: cells_make_row_None)
  note l = loop_first_lacks [OF lacks, of dl rs w]
  note f = download_music_file [of fs input "header # records" dl userhome errno prog args w, OF assms(1)]
  have "events (download_music dl userhome fs errno (prog # input # args) w) = [YoutubeDL (ydl_opts userhome)]"
    and "raised (download_music dl userhome fs errno (prog # input # args) w) =
      Some (KeyError (if ''Track Name'' \<notin> set header then ''Track Name'' else ''Artist Name(s)''))"
    and "world (download_music dl userhome fs errno (prog # input # args) w) = w"
    unfolding f rows l by (simp_all only: run.simps cells_make_row_None)
  then show ?thesis by (cases "download_music dl userhome fs errno (prog # input # args) w") simp
qed

lemma loop_world:
  "world (loop dl rows w) = fold (\<lambda>urls w. snd (dl w urls)) (downloads (events (loop dl rows w))) w"
proof (induction rows arbitrary: w)
  case Nil
  show ?case by simp
next
  case (Cons r rs)
  show ?case
  proof (cases "cells r ''Track Name'' = None \<or> cells r ''Artist Name(s)'' = None")
    case True
    show ?thesis by (simp add: loop_first_lacks [OF True, of dl rs w])
  next
    case False
    then obtain name artists where c: "cells r ''Track Name'' = Some name" "cells r ''Artist Name(s)'' = Some artists"
      by auto
    note b = body_both [OF c, of dl w]
    show ?thesis
    proof (cases "fst (dl w [ytsearch artists name])")
      case None
      have "body dl r w = \<lparr>events = [Print (progress artists name), Download [ytsearch artists name] None],
          raised = None, world = snd (dl w [ytsearch artists name])\<rparr>"
        unfolding b None by simp
      note step = loop_Cons_returned [OF this, of rs]
      show ?thesis
        by (simp add: step Cons.IH [of "snd (dl w [ytsearch artists name])"])
    next
      case (Some m)
      have "loop dl (r # rs) w = body dl r w"
        by (rule loop_Cons_raised [of _ _ _ "DownloadError m"]) (simp add: b Some)
      then show ?thesis by (simp add: b)
    qed
  qed
qed

lemma loop_Cons_both:
  assumes "cells r ''Track Name'' = Some name" "cells r ''Artist Name(s)'' = Some artists"
  shows "\<exists>res rest. events (loop dl (r # rs) w) =
    Print (progress artists name) # Download [ytsearch artists name] res # rest"
proof (cases "fst (dl w [ytsearch artists name])")
  case None
  have "body dl r w = \<lparr>events = [Print (progress artists name), Download [ytsearch artists name] None],
      raised = None, world = snd (dl w [ytsearch artists name])\<rparr>"
    unfolding body_both [OF assms, of dl w] None by simp
  note step = loop_Cons_returned [OF this, of rs]
  show ?thesis by (simp add: step(1))
next
  case (Some m)
  note b = body_both [OF assms, of dl w]
  have "loop dl (r # rs) w = body dl r w"
    by (rule loop_Cons_raised [of _ _ _ "DownloadError m"]) (simp add: b Some)
  then show ?thesis by (simp add: b)
qed

section \<open>The properties of the specification\<close>

subsection \<open>C1\<close>

text \<open>
  C1. The search query of every download invocation is the artist names, one space, the
  track name: in a run on an existing file, the \<open>i\<close>-th download invocation that the
  run makes is called with the one URL that consists of yt-dlp's search key
  \<open>ytsearch:\<close> and the query \<open>artists @ '' '' @ name\<close>, where \<open>name\<close> and
  \<open>artists\<close> are the strings that the \<open>i\<close>-th row holds under \<open>Track Name\<close> and
  \<open>Artist Name(s)\<close>. For the row Imagine, John Lennon the query is
  \<open>John Lennon Imagine\<close> (the witness).
\<close>

theorem query_format:
  assumes "fs input = Some content"
    and "i < length (downloads (events (download_music dl userhome fs errno (prog # input # args) w)))"
    and "cells (DictReader content ! i) ''Track Name'' = Some (Some name)"
    and "cells (DictReader content ! i) ''Artist Name(s)'' = Some (Some artists)"
  shows "downloads (events (download_music dl userhome fs errno (prog # input # args) w)) ! i =
    [''ytsearch:'' @ artists @ '' '' @ name]"
proof -
  let ?rows = "DictReader content"
  obtain n where n: "n \<le> length ?rows"
      "downloads (events (loop dl ?rows w)) = map request (take n ?rows)"
    using loop_downloads [of ?rows dl w] by (elim exE conjE)
  have d: "downloads (events (download_music dl userhome fs errno (prog # input # args) w)) =
      map request (take n ?rows)"
    by (simp add: download_music_file(1) [of fs input content, OF assms(1)] n(2))
  from assms(2) have "i < n" "i < length ?rows"
    using n(1) by (simp_all add: d)
  then have "map request (take n ?rows) ! i = request (?rows ! i)"
    by simp
  also have "\<dots> = [''ytsearch:'' @ artists @ '' '' @ name]"
    by (simp add: request_both [OF assms(3) assms(4)] ytsearch_def)
  finally show ?thesis by (simp only: d)
qed

theorem query_format_witness:
  "downloads (events (download_music (\<lambda>w urls. (None, w)) None
      [''tracks.csv'' \<mapsto> [[''Track Name'', ''Artist Name(s)''], [''Imagine'', ''John Lennon'']]]
      (\<lambda>path. ENOENT) [''download_music.py'', ''tracks.csv''] ())) ! 0 = [''ytsearch:John Lennon Imagine'']"
  using query_format [of "[''tracks.csv'' \<mapsto> [[''Track Name'', ''Artist Name(s)''], [''Imagine'', ''John Lennon'']]]"
      "''tracks.csv''" "[[''Track Name'', ''Artist Name(s)''], [''Imagine'', ''John Lennon'']]"
      0 "\<lambda>w urls. (None, w)" None "\<lambda>path. ENOENT" "''download_music.py''" "[]" "()" "''Imagine''" "''John Lennon''"]
  by (simp add: run_simps)

subsection \<open>C2\<close>

text \<open>
  C2. A run on a well-formed file makes as many download invocations as the file has data
  rows, and ends without an exception: the header holds both column names, every data
  record supplies both fields, and every call of the downloader returns.
\<close>

theorem wellformed_count:
  assumes "fs input = Some (header # records)"
    and "''Track Name'' \<in> set header" and "''Artist Name(s)'' \<in> set header"
    and "\<forall>r\<in>set records. supplies header r"
    and "\<forall>w urls. fst (dl w urls) = None"
  shows "length (downloads (events (download_music dl userhome fs errno (prog # input # args) w))) =
      length records \<and>
    raised (download_music dl userhome fs errno (prog # input # args) w) = None"
proof -
  let ?rows = "DictReader (header # records)"
  note f = download_music_file [of fs input "header # records" dl userhome errno prog args w, OF assms(1)]
  have "filter (\<lambda>r. r \<noteq> []) records = records"
    using assms(4) by (auto simp: filter_id_conv dest: supplies_nonblank)
  then have len: "length ?rows = length records" by simp
  have r: "raised (loop dl ?rows w) = None"
    by (rule loop_all_returned [OF rows_have_keys [OF assms(2) assms(3)] assms(5)])
  obtain n where n: "n \<le> length ?rows"
      "downloads (events (loop dl ?rows w)) = map request (take n ?rows)"
      "raised (loop dl ?rows w) = None \<longrightarrow> n = length ?rows"
    using loop_downloads [of ?rows dl w] by (elim exE conjE)
  from n(3) r have "n = length ?rows" by simp
  then have "length (downloads (events (loop dl ?rows w))) = length records"
    by (simp only: n(2) len length_map length_take min.idem)
  with r show ?thesis by (simp add: f)
qed

theorem wellformed_count_witness:
  "length (downloads (events (download_music (\<lambda>w urls. (None, w)) (Some ''/home/ann'')
      [''tracks.csv'' \<mapsto> [[''Track Name'', ''Artist Name(s)'', ''Album''],
         [''Imagine'', ''John Lennon'', ''Imagine''], [''Heroes'', ''David Bowie'', ''Heroes'']]]
      (\<lambda>path. ENOENT) [''download_music.py'', ''tracks.csv''] (0::nat)))) = 2"
  using wellformed_count [of
      "[''tracks.csv'' \<mapsto> [[''Track Name'', ''Artist Name(s)'', ''Album''],
         [''Imagine'', ''John Lennon'', ''Imagine''], [''Heroes'', ''David Bowie'', ''Heroes'']]]"
      "''tracks.csv''" "[''Track Name'', ''Artist Name(s)'', ''Album'']"
      "[[''Imagine'', ''John Lennon'', ''Imagine''], [''Heroes'', ''David Bowie'', ''Heroes'']]"
      "\<lambda>w urls. (None, w)" "Some ''/home/ann''" "\<lambda>path. ENOENT" "''download_music.py''" "[]" "0::nat"]
  by (simp add: run_simps)

subsection \<open>C3\<close>

text \<open>
  C3. A run on a file that holds a header and no data row makes no download invocation
  and ends without an exception, whatever the header is.
\<close>

theorem header_only:
  assumes "fs input = Some [header]"
  shows "raised (download_music dl userhome fs errno (prog # input # args) w) = None \<and>
    downloads (events (download_music dl userhome fs errno (prog # input # args) w)) = [] \<and>
    prints (events (download_music dl userhome fs errno (prog # input # args) w)) = []"
  by (simp add: download_music_file [of fs input "[header]", OF assms])

theorem header_only_witness:
  "raised (download_music (\<lambda>w urls. (Some ''offline'', w)) None
      [''tracks.csv'' \<mapsto> [[''Track Name'', ''Artist Name(s)'']]]
      (\<lambda>path. ENOENT) [''download_music.py'', ''tracks.csv''] ()) = None \<and>
   downloads (events (download_music (\<lambda>w urls. (Some ''offline'', w)) None
      [''tracks.csv'' \<mapsto> [[''Track Name'', ''Artist Name(s)'']]]
      (\<lambda>path. ENOENT) [''download_music.py'', ''tracks.csv''] ())) = []"
  using header_only [of "[''tracks.csv'' \<mapsto> [[''Track Name'', ''Artist Name(s)'']]]"
      "''tracks.csv''" "[''Track Name'', ''Artist Name(s)'']"
      "\<lambda>w urls. (Some ''offline'', w)" None "\<lambda>path. ENOENT" "''download_music.py''" "[]" "()"]
  by simp

subsection \<open>C4\<close>

text \<open>
  C4, as the code has it. The subscript \<open>row['Track Name']\<close> is evaluated once per row,
  never on the header. On a file whose header lacks \<open>Track Name\<close>, the run ends with
  \<open>KeyError\<close> for that key when the file has a data record that is not empty, and it
  raises nothing when the file has no such record (no data record, or empty ones only);
  in both cases it makes no download invocation and prints no progress message.
\<close>

theorem missing_track_header:
  assumes "fs input = Some (header # records)"
    and "''Track Name'' \<notin> set header"
  shows "raised (download_music dl userhome fs errno (prog # input # args) w) =
      (if \<exists>r\<in>set records. r \<noteq> [] then Some (KeyError ''Track Name'') else None) \<and>
    downloads (events (download_music dl userhome fs errno (prog # input # args) w)) = [] \<and>
    prints (events (download_music dl userhome fs errno (prog # input # args) w)) = []"
proof (cases "\<exists>r\<in>set records. r \<noteq> []")
  case True
  from assms(2) have "''Track Name'' \<notin> set header \<or> ''Artist Name(s)'' \<notin> set header" by simp
  from run_first_lacks [of fs input header records dl userhome errno prog args w, OF assms(1) this True]
    assms(2) True
  show ?thesis by simp
next
  case False
  note f = download_music_file [of fs input "header # records" dl userhome errno prog args w,
      OF assms(1)]
  have "DictReader (header # records) = []"
    by (rule DictReader_blank [OF False])
  with False show ?thesis by (simp add: f)
qed

theorem missing_track_header_witness:
  "raised (download_music (\<lambda>w urls. (None, w)) None
      [''tracks.csv'' \<mapsto> [[''Title'', ''Artist Name(s)''], [''Imagine'', ''John Lennon'']]]
      (\<lambda>path. ENOENT) [''download_music.py'', ''tracks.csv''] ()) = Some (KeyError ''Track Name'') \<and>
   downloads (events (download_music (\<lambda>w urls. (None, w)) None
      [''tracks.csv'' \<mapsto> [[''Title'', ''Artist Name(s)''], [''Imagine'', ''John Lennon'']]]
      (\<lambda>path. ENOENT) [''download_music.py'', ''tracks.csv''] ())) = [] \<and>
   raised (download_music (\<lambda>w urls. (None, w)) None
      [''tracks.csv'' \<mapsto> [[''Title'', ''Artist Name(s)''], [], []]]
      (\<lambda>path. ENOENT) [''download_music.py'', ''tracks.csv''] ()) = None"
  using missing_track_header [of
      "[''tracks.csv'' \<mapsto> [[''Title'', ''Artist Name(s)''], [''Imagine'', ''John Lennon'']]]"
      "''tracks.csv''" "[''Title'', ''Artist Name(s)'']" "[[''Imagine'', ''John Lennon'']]"
      "\<lambda>w urls. (None, w)" None "\<lambda>path. ENOENT" "''download_music.py''" "[]" "()"]
    missing_track_header [of
      "[''tracks.csv'' \<mapsto> [[''Title'', ''Artist Name(s)''], [], []]]"
      "''tracks.csv''" "[''Title'', ''Artist Name(s)'']" "[[], []]"
      "\<lambda>w urls. (None, w)" None "\<lambda>path. ENOENT" "''download_music.py''" "[]" "()"]
  by simp

text \<open>
  C4 as stated fails: on a file whose header lacks \<open>Track Name\<close> and that has no data
  row, the run raises nothing.
\<close>

theorem missing_track_header_counterexample:
  "''Track Name'' \<notin> set [''Title'', ''Artist Name(s)''] \<and>
   raised (download_music (\<lambda>w urls. (None, w)) None
      [''tracks.csv'' \<mapsto> [[''Title'', ''Artist Name(s)'']]]
      (\<lambda>path. ENOENT) [''download_music.py'', ''tracks.csv''] ()) = None"
  by (simp add: run_simps)

subsection \<open>C5\<close>

text \<open>
  C5, as the code has it. A run on a file with a header ends with \<open>KeyError\<close> exactly
  when the header lacks \<open>Track Name\<close> or \<open>Artist Name(s)\<close> and the file has a data
  record that is not empty. A data record that is shorter than a header with both
  columns raises nothing: \<open>DictReader\<close> fills its missing fields with \<open>None\<close>.
\<close>

theorem key_error_iff:
  assumes "fs input = Some (header # records)"
  shows "(\<exists>k. raised (download_music dl userhome fs errno (prog # input # args) w) = Some (KeyError k)) \<longleftrightarrow>
    (''Track Name'' \<notin> set header \<or> ''Artist Name(s)'' \<notin> set header) \<and> (\<exists>r\<in>set records. r \<noteq> [])"
proof (cases "(''Track Name'' \<notin> set header \<or> ''Artist Name(s)'' \<notin> set header) \<and> (\<exists>r\<in>set records. r \<noteq> [])")
  case True
  then have "raised (download_music dl userhome fs errno (prog # input # args) w) =
      Some (KeyError (if ''Track Name'' \<notin> set header then ''Track Name'' else ''Artist Name(s)''))"
    using run_first_lacks [of fs input header records dl userhome errno prog args w, OF assms] by simp
  with True show ?thesis by blast
next
  case False
  note f = download_music_file [of fs input "header # records" dl userhome errno prog args w, OF assms]
  have "raised (loop dl (DictReader (header # records)) w) \<noteq> Some (KeyError k)" for k
  proof (cases "\<exists>r\<in>set records. r \<noteq> []")
    case True
    with False have "''Track Name'' \<in> set header" "''Artist Name(s)'' \<in> set header" by auto
    from loop_KeyError_keys [OF rows_have_keys [OF this]] show ?thesis .
  next
    case False
    from DictReader_blank [OF this] show ?thesis by simp
  qed
  with False show ?thesis by (simp only: f) blast
qed

theorem key_error_iff_witness:
  "\<not> (\<exists>k. raised (download_music (\<lambda>w urls. (None, w)) None
      [''tracks.csv'' \<mapsto> [[''Track Name'', ''Artist Name(s)''], [''Imagine'']]]
      (\<lambda>path. ENOENT) [''download_music.py'', ''tracks.csv''] ()) = Some (KeyError k))"
  using key_error_iff [of
      "[''tracks.csv'' \<mapsto> [[''Track Name'', ''Artist Name(s)''], [''Imagine'']]]"
      "''tracks.csv''" "[''Track Name'', ''Artist Name(s)'']" "[[''Imagine'']]"
      "\<lambda>w urls. (None, w)" None "\<lambda>path. ENOENT" "''download_music.py''" "[]" "()"]
  by simp

text \<open>
  C5 as stated fails: a data record with fewer fields than the header raises no error;
  the download is invoked with the text \<open>None\<close> in place of the missing field.
\<close>

theorem short_row_counterexample:
  "length [''Imagine''] < length [''Track Name'', ''Artist Name(s)''] \<and>
   raised (download_music (\<lambda>w urls. (None, w)) None
      [''tracks.csv'' \<mapsto> [[''Track Name'', ''Artist Name(s)''], [''Imagine'']]]
      (\<lambda>path. ENOENT) [''download_music.py'', ''tracks.csv''] ()) = None \<and>
   downloads (events (download_music (\<lambda>w urls. (None, w)) None
      [''tracks.csv'' \<mapsto> [[''Track Name'', ''Artist Name(s)''], [''Imagine'']]]
      (\<lambda>path. ENOENT) [''download_music.py'', ''tracks.csv''] ())) = [[''ytsearch:None Imagine'']]"
  by (simp add: run_simps)

subsection \<open>C6\<close>

text \<open>
  C6, as the code has it. The script calls \<open>open\<close> and handles nothing. With a path
  that names no existing file, the run ends with the \<open>OSError\<close> that \<open>open\<close> raises
  for the path, of the class that belongs to the error number of the operating system,
  and makes no download invocation; the exception is a \<open>FileNotFoundError\<close> exactly
  when the error number is \<open>ENOENT\<close>.
\<close>

theorem missing_file:
  assumes "fs input = None"
  shows "raised (download_music dl userhome fs errno (prog # input # args) w) =
      Some (OSError (errno input) input) \<and>
    downloads (events (download_music dl userhome fs errno (prog # input # args) w)) = [] \<and>
    (raised (download_music dl userhome fs errno (prog # input # args) w) =
        Some (FileNotFoundError input) \<longleftrightarrow>
      errno input = ENOENT)"
  by (simp add: download_music_missing [of fs input, OF assms] FileNotFoundError_def)

theorem missing_file_witness:
  "raised (download_music (\<lambda>w urls. (None, w)) (Some ''/home/ann'') Map.empty
      (\<lambda>path. ENOENT) [''download_music.py'', ''nowhere.csv''] ()) =
     Some (FileNotFoundError ''nowhere.csv'') \<and>
   downloads (events (download_music (\<lambda>w urls. (None, w)) (Some ''/home/ann'') Map.empty
      (\<lambda>path. ENOENT) [''download_music.py'', ''nowhere.csv''] ())) = []"
  using missing_file [of Map.empty "''nowhere.csv''" "\<lambda>w urls. (None, w)" "Some ''/home/ann''"
      "\<lambda>path. ENOENT" "''download_music.py''" "[]" "()"]
  by (simp add: FileNotFoundError_def)

text \<open>
  C6 as stated fails. Where \<open>tracks.csv\<close> is a regular file, the path
  \<open>tracks.csv/x\<close> names no existing file, and the operating system fails \<open>open\<close>
  with \<open>ENOTDIR\<close> there: the run ends with \<open>NotADirectoryError\<close>, which is not a
  \<open>FileNotFoundError\<close>.
\<close>

theorem missing_file_counterexample:
  "[''tracks.csv'' \<mapsto> [[''Track Name'', ''Artist Name(s)''], [''Imagine'', ''John Lennon'']]]
      ''tracks.csv/x'' = None \<and>
   raised (download_music (\<lambda>w urls. (None, w)) (Some ''/home/ann'')
      [''tracks.csv'' \<mapsto> [[''Track Name'', ''Artist Name(s)''], [''Imagine'', ''John Lennon'']]]
      (\<lambda>path. if path = ''tracks.csv/x'' then ENOTDIR else ENOENT)
      [''download_music.py'', ''tracks.csv/x''] ()) = Some (NotADirectoryError ''tracks.csv/x'') \<and>
   raised (download_music (\<lambda>w urls. (None, w)) (Some ''/home/ann'')
      [''tracks.csv'' \<mapsto> [[''Track Name'', ''Artist Name(s)''], [''Imagine'', ''John Lennon'']]]
      (\<lambda>path. if path = ''tracks.csv/x'' then ENOTDIR else ENOENT)
      [''download_music.py'', ''tracks.csv/x''] ()) \<noteq> Some (FileNotFoundError ''tracks.csv/x'')"
  by (simp add: run_simps)

subsection \<open>C7\<close>

text \<open>
  C7. The download invocations of a run are made one after the other in the order of the
  rows, and a failed invocation is the last thing that the run does:
  \<^item> the invocations of the run are those of an initial segment of the rows, in the
    order of the rows, and those of all rows when the run raises nothing;
  \<^item> an invocation that raises is the last event of the run, and its exception is the
    exception of the run: no later row is looked at;
  \<^item> every invocation starts in the world that the invocation before it has left.
\<close>

theorem sequential_abort:
  assumes "fs input = Some content"
  shows "prefix (downloads (events (download_music dl userhome fs errno (prog # input # args) w)))
      (map request (DictReader content)) \<and>
    (raised (download_music dl userhome fs errno (prog # input # args) w) = None \<longrightarrow>
      downloads (events (download_music dl userhome fs errno (prog # input # args) w)) =
        map request (DictReader content)) \<and>
    (\<forall>pre urls m post.
      events (download_music dl userhome fs errno (prog # input # args) w) =
        pre @ Download urls (Some m) # post \<longrightarrow>
      post = [] \<and>
      raised (download_music dl userhome fs errno (prog # input # args) w) = Some (DownloadError m)) \<and>
    world (download_music dl userhome fs errno (prog # input # args) w) =
      fold (\<lambda>urls w. snd (dl w urls))
        (downloads (events (download_music dl userhome fs errno (prog # input # args) w))) w"
proof -
  let ?rows = "DictReader content"
  let ?R = "download_music dl userhome fs errno (prog # input # args) w"
  note f = download_music_file [of fs input content dl userhome errno prog args w, OF assms]
  obtain n where n: "n \<le> length ?rows"
      "downloads (events (loop dl ?rows w)) = map request (take n ?rows)"
      "raised (loop dl ?rows w) = None \<longrightarrow> n = length ?rows"
    using loop_downloads [of ?rows dl w] by (elim exE conjE)
  have d: "downloads (events ?R) = map request (take n ?rows)"
    by (simp add: f(1) n(2))
  have "prefix (take n ?rows) ?rows"
    by (rule take_is_prefix)
  then have p: "prefix (downloads (events ?R)) (map request ?rows)"
    unfolding d by (rule map_mono_prefix)
  have a: "downloads (events ?R) = map request ?rows" if "raised ?R = None"
    using that n(3) unfolding d f(2) by simp
  have l: "post = [] \<and> raised ?R = Some (DownloadError m)"
    if e: "events ?R = pre @ Download urls (Some m) # post" for pre urls m post
  proof -
    from e have "YoutubeDL (ydl_opts userhome) # events (loop dl ?rows w) =
        pre @ Download urls (Some m) # post"
      by (simp only: f(1))
    then obtain pre' where "events (loop dl ?rows w) = pre' @ Download urls (Some m) # post"
      by (cases pre) auto
    from loop_failed_last [OF this] show ?thesis by (simp only: f(2)) 
  qed
  have s: "world ?R = fold (\<lambda>urls w. snd (dl w urls)) (downloads (events ?R)) w"
    unfolding f(3) f(1) using loop_world [of dl ?rows w] by simp
  from p a l s show ?thesis by blast
qed

theorem sequential_abort_witness:
  "raised (download_music (\<lambda>w urls. (Some ''offline'', Suc w)) None
      [''tracks.csv'' \<mapsto> [[''Track Name'', ''Artist Name(s)''],
         [''Imagine'', ''John Lennon''], [''Heroes'', ''David Bowie'']]]
      (\<lambda>path. ENOENT) [''download_music.py'', ''tracks.csv''] 0) = Some (DownloadError ''offline'') \<and>
   downloads (events (download_music (\<lambda>w urls. (Some ''offline'', Suc w)) None
      [''tracks.csv'' \<mapsto> [[''Track Name'', ''Artist Name(s)''],
         [''Imagine'', ''John Lennon''], [''Heroes'', ''David Bowie'']]]
      (\<lambda>path. ENOENT) [''download_music.py'', ''tracks.csv''] 0)) = [[''ytsearch:John Lennon Imagine'']] \<and>
   prefix [[''ytsearch:John Lennon Imagine'']]
     (map request (DictReader [[''Track Name'', ''Artist Name(s)''],
         [''Imagine'', ''John Lennon''], [''Heroes'', ''David Bowie'']])) \<and>
   world (download_music (\<lambda>w urls. (Some ''offline'', Suc w)) None
      [''tracks.csv'' \<mapsto> [[''Track Name'', ''Artist Name(s)''],
         [''Imagine'', ''John Lennon''], [''Heroes'', ''David Bowie'']]]
      (\<lambda>path. ENOENT) [''download_music.py'', ''tracks.csv''] 0) = Suc 0"
  using sequential_abort [of
      "[''tracks.csv'' \<mapsto> [[''Track Name'', ''Artist Name(s)''],
         [''Imagine'', ''John Lennon''], [''Heroes'', ''David Bowie'']]]"
      "''tracks.csv''"
      "[[''Track Name'', ''Artist Name(s)''],
         [''Imagine'', ''John Lennon''], [''Heroes'', ''David Bowie'']]"
      "\<lambda>w urls. (Some ''offline'', Suc w)" None "\<lambda>path. ENOENT" "''download_music.py''" "[]" "0::nat"]
  by (simp add: run_simps)

subsection \<open>C8\<close>

text \<open>
  C8. The run constructs the downloader once, whatever the input is, and the options it
  passes are three: the format \<open>bestaudio/best\<close>, one postprocessor that extracts the
  audio with the preferred codec \<open>mp3\<close>, and the output template
  \<open>Music/%(title)s.%(ext)s\<close> under the home directory of the user.
\<close>

theorem options_fixed:
  "constructions (events (download_music dl (Some home) fs errno (prog # input # args) w)) =
    [[(''format'', OStr ''bestaudio/best''),
      (''postprocessors'',
         ODicts [[(''key'', ''FFmpegExtractAudio''), (''preferredcodec'', ''mp3'')]]),
      (''outtmpl'', OStr (rstrip_sep home @ ''/Music/%(title)s.%(ext)s''))]]"
proof (cases "fs input")
  case None
  show ?thesis
    by (simp add: download_music_missing [of fs input, OF None] ydl_opts_def output_dir_def)
next
  case (Some content)
  show ?thesis
    by (simp add: download_music_file [of fs input content, OF Some] loop_constructions
        ydl_opts_def output_dir_def)
qed

theorem options_fixed_witness:
  "constructions (events (download_music (\<lambda>w urls. (None, w)) (Some ''/home/ann/'')
      [''tracks.csv'' \<mapsto> [[''Track Name'', ''Artist Name(s)''], [''Imagine'', ''John Lennon'']]]
      (\<lambda>path. ENOENT) [''download_music.py'', ''tracks.csv''] ())) =
    [[(''format'', OStr ''bestaudio/best''),
      (''postprocessors'',
         ODicts [[(''key'', ''FFmpegExtractAudio''), (''preferredcodec'', ''mp3'')]]),
      (''outtmpl'', OStr ''/home/ann/Music/%(title)s.%(ext)s'')]]"
  using options_fixed [of "\<lambda>w urls. (None, w)" "''/home/ann/''"
      "[''tracks.csv'' \<mapsto> [[''Track Name'', ''Artist Name(s)''], [''Imagine'', ''John Lennon'']]]"
      "\<lambda>path. ENOENT" "''download_music.py''" "''tracks.csv''" "[]" "()"]
  by (simp add: rstrip_sep_def)

subsection \<open>C9\<close>

text \<open>
  C9. A data record whose two fields are empty strings is not skipped and raises
  nothing: when the run has come through the records before it without an exception,
  it goes on with the progress message and with a download invocation whose query is
  made of the two empty fields (a single space).
\<close>

theorem empty_fields_downloaded:
  assumes "fs input = Some (header # before @ r # after)"
    and "cells (make_row header r) ''Track Name'' = Some (Some [])"
    and "cells (make_row header r) ''Artist Name(s)'' = Some (Some [])"
    and "raised (download_music dl userhome (fs(input \<mapsto> header # before)) errno
          (prog # input # args) w) = None"
  shows "\<exists>res rest.
    events (download_music dl userhome fs errno (prog # input # args) w) =
      events (download_music dl userhome (fs(input \<mapsto> header # before)) errno (prog # input # args) w) @
      Print ''Downloading:  - '' # Download [''ytsearch: ''] res # rest"
proof -
  let ?A = "DictReader (header # before)"
  let ?d = "make_row header r"
  let ?B = "DictReader (header # after)"
  have "r \<noteq> []"
    using assms(2) make_row_Nil [of header "''Track Name''" "[]"] by auto
  then have rows: "DictReader (header # before @ r # after) = ?A @ ?d # ?B"
    by simp
  note f = download_music_file [of fs input "header # before @ r # after" dl userhome errno prog args w,
      OF assms(1)]
  have "(fs(input \<mapsto> header # before)) input = Some (header # before)" by simp
  note g = download_music_file [of "fs(input \<mapsto> header # before)" input "header # before"
      dl userhome errno prog args w, OF this]
  from assms(4) have ra: "raised (loop dl ?A w) = None"
    by (simp only: g(2))
  obtain res rest where e: "events (loop dl (?d # ?B) (world (loop dl ?A w))) =
      Print (progress (Some []) (Some [])) # Download [ytsearch (Some []) (Some [])] res # rest"
    using loop_Cons_both [OF assms(2) assms(3), of dl ?B "world (loop dl ?A w)"] by blast
  have "events (loop dl (?A @ ?d # ?B) w) =
      events (loop dl ?A w) @ events (loop dl (?d # ?B) (world (loop dl ?A w)))"
    unfolding loop_append by (rule seq_events [OF ra])
  then have "events (download_music dl userhome fs errno (prog # input # args) w) =
      events (download_music dl userhome (fs(input \<mapsto> header # before)) errno (prog # input # args) w) @
      Print ''Downloading:  - '' # Download [''ytsearch: ''] res # rest"
    unfolding f(1) g(1) rows e by (simp add: progress_def ytsearch_def)
  then show ?thesis by blast
qed

theorem empty_fields_downloaded_witness:
  "\<exists>res rest.
    events (download_music (\<lambda>w urls. (None, w)) None
      [''tracks.csv'' \<mapsto> [[''Track Name'', ''Artist Name(s)''],
         [''Imagine'', ''John Lennon''], [[], []], [''Heroes'', ''David Bowie'']]]
      (\<lambda>path. ENOENT) [''download_music.py'', ''tracks.csv''] ()) =
    [YoutubeDL (ydl_opts None), Print ''Downloading: John Lennon - Imagine'',
     Download [''ytsearch:John Lennon Imagine''] None] @
    Print ''Downloading:  - '' # Download [''ytsearch: ''] res # rest"
  using empty_fields_downloaded [of
      "[''tracks.csv'' \<mapsto> [[''Track Name'', ''Artist Name(s)''],
         [''Imagine'', ''John Lennon''], [[], []], [''Heroes'', ''David Bowie'']]]"
      "''tracks.csv''" "[''Track Name'', ''Artist Name(s)'']" "[[''Imagine'', ''John Lennon'']]"
      "[[], []]" "[[''Heroes'', ''David Bowie'']]"
      "\<lambda>w urls. (None, w)" None "\<lambda>path. ENOENT" "''download_music.py''" "[]" "()"]
  by (simp add: run_simps)

subsection \<open>C10\<close>

text \<open>
  C10. The run depends on the two columns \<open>Track Name\<close> and \<open>Artist Name(s)\<close> alone:
  two files whose rows agree on what they hold in these two columns, whatever their
  other columns are, give the same progress messages, the same download invocations,
  the same exception and the same outside world; the whole runs are equal.
\<close>

theorem other_columns_irrelevant:
  assumes "fs input = Some content"
    and "fs' input' = Some content'"
    and "map key_fields (DictReader content) = map key_fields (DictReader content')"
  shows "prints (events (download_music dl userhome fs errno (prog # input # args) w)) =
      prints (events (download_music dl userhome fs' errno' (prog' # input' # args') w)) \<and>
    downloads (events (download_music dl userhome fs errno (prog # input # args) w)) =
      downloads (events (download_music dl userhome fs' errno' (prog' # input' # args') w)) \<and>
    download_music dl userhome fs errno (prog # input # args) w =
      download_music dl userhome fs' errno' (prog' # input' # args') w"
proof -
  have "loop dl (DictReader content) w = loop dl (DictReader content') w"
    by (rule loop_key_fields [OF assms(3)])
  then have "download_music dl userhome fs errno (prog # input # args) w =
      download_music dl userhome fs' errno' (prog' # input' # args') w"
    by (simp add: download_music_def assms(1) assms(2) seq_def Let_def)
  then show ?thesis by simp
qed

theorem other_columns_irrelevant_witness:
  "download_music (\<lambda>w urls. (None, urls # w)) (Some ''/home/ann'')
      [''a.csv'' \<mapsto> [[''Track Name'', ''Artist Name(s)'', ''Album''],
         [''Imagine'', ''John Lennon'', ''Imagine'']]]
      (\<lambda>path. ENOENT) [''download_music.py'', ''a.csv''] [] =
   download_music (\<lambda>w urls. (None, urls # w)) (Some ''/home/ann'')
      [''b.csv'' \<mapsto> [[''Added By'', ''Artist Name(s)'', ''Track Name''],
         [''ann'', ''John Lennon'', ''Imagine'']]]
      (\<lambda>path. ENOENT) [''download_music.py'', ''b.csv''] []"
  using other_columns_irrelevant [of
      "[''a.csv'' \<mapsto> [[''Track Name'', ''Artist Name(s)'', ''Album''],
         [''Imagine'', ''John Lennon'', ''Imagine'']]]"
      "''a.csv''"
      "[[''Track Name'', ''Artist Name(s)'', ''Album''], [''Imagine'', ''John Lennon'', ''Imagine'']]"
      "[''b.csv'' \<mapsto> [[''Added By'', ''Artist Name(s)'', ''Track Name''],
         [''ann'', ''John Lennon'', ''Imagine'']]]"
      "''b.csv''"
      "[[''Added By'', ''Artist Name(s)'', ''Track Name''], [''ann'', ''John Lennon'', ''Imagine'']]"
      "\<lambda>w urls. (None, urls # w)" "Some ''/home/ann''" "\<lambda>path. ENOENT" "''download_music.py''" "[]" "[]"
      "\<lambda>path. ENOENT" "''download_music.py''" "[]"]
  by (simp add: run_simps)

end
